theory Spec2Isabelle
  imports Main "HOL-Library.Product_Lexorder"
begin

section \<open>Text helpers of the Python runtime\<close>

text \<open>
  Names and cell texts are modelled as \<open>string\<close> (lists of 8-bit characters). Code points
  beyond ASCII (among them the non-ASCII white space and the non-ASCII decimal digits that
  Python's \<open>str.strip\<close> and \<open>\d\<close> also accept) are outside the model.
\<close>

text \<open>\<open>s.startswith(p)\<close>\<close>

definition startswith :: "string \<Rightarrow> string \<Rightarrow> bool" where
  "startswith s p = (take (length p) s = p)"

text \<open>\<open>str.isspace\<close> on one ASCII character: TAB, LF, VT, FF, CR, FS, GS, RS, US, space.\<close>

definition isspace :: "char \<Rightarrow> bool" where
  "isspace c = (c \<in> set [CHR 0x09, CHR 0x0A, CHR 0x0B, CHR 0x0C, CHR 0x0D,
                          CHR 0x1C, CHR 0x1D, CHR 0x1E, CHR 0x1F, CHR '' ''])"

text \<open>\<open>s.strip()\<close>: white space removed at both ends.\<close>

definition strip :: "string \<Rightarrow> string" where
  "strip s = rev (dropWhile isspace (rev (dropWhile isspace s)))"

text \<open>The regular-expression class \<open>[a-b]\<close> on one character.\<close>

definition in_range :: "char \<Rightarrow> char \<Rightarrow> char \<Rightarrow> bool" where
  "in_range a b c = ((of_char a :: nat) \<le> of_char c \<and> (of_char c :: nat) \<le> of_char b)"

definition digit_val :: "char \<Rightarrow> nat" where
  "digit_val c = of_char c - 48"

text \<open>\<open>int(s)\<close> on a captured group of the date pattern: surrounding white space is ignored,
  the rest is read as decimal digits.\<close>

definition py_int :: "string \<Rightarrow> nat" where
  "py_int s = foldl (\<lambda>n c. 10 * n + digit_val c) 0 (strip s)"


section \<open>\<open>datetime.strptime(data_str, "%d.%m.%Y")\<close>\<close>

text \<open>
  The standard library turns the format into the regular expression
  \<^verbatim>\<open>(?P<d>3[0-1]|[1-2]\d|0[1-9]|[1-9]| [1-9])\.(?P<m>1[0-2]|0[1-9]|[1-9])\.(?P<Y>\d\d\d\d)\<close>,
  matches it at the start of the text, raises \<open>ValueError\<close> when it does not match or when
  text remains after the match, and raises \<open>ValueError\<close> again when the three numbers are
  not a calendar date. Each piece of the expression is a function from the text to the list
  of its possible matches (captured text, remaining text) in the order the alternatives are
  tried; the whole match is the first complete path.
\<close>

definition two :: "(char \<Rightarrow> bool) \<Rightarrow> (char \<Rightarrow> bool) \<Rightarrow> string \<Rightarrow> (string \<times> string) list" where
  "two p q s = (case s of a # b # r \<Rightarrow> if p a \<and> q b then [([a, b], r)] else [] | _ \<Rightarrow> [])"

definition one :: "(char \<Rightarrow> bool) \<Rightarrow> string \<Rightarrow> (string \<times> string) list" where
  "one p s = (case s of a # r \<Rightarrow> if p a then [([a], r)] else [] | _ \<Rightarrow> [])"

definition re_d :: "string \<Rightarrow> (string \<times> string) list" where
  "re_d s = two ((=) CHR ''3'') (in_range CHR ''0'' CHR ''1'') s
          @ two (in_range CHR ''1'' CHR ''2'') (in_range CHR ''0'' CHR ''9'') s
          @ two ((=) CHR ''0'') (in_range CHR ''1'' CHR ''9'') s
          @ one (in_range CHR ''1'' CHR ''9'') s
          @ two ((=) CHR '' '') (in_range CHR ''1'' CHR ''9'') s"

definition re_m :: "string \<Rightarrow> (string \<times> string) list" where
  "re_m s = two ((=) CHR ''1'') (in_range CHR ''0'' CHR ''2'') s
          @ two ((=) CHR ''0'') (in_range CHR ''1'' CHR ''9'') s
          @ one (in_range CHR ''1'' CHR ''9'') s"

definition re_Y :: "string \<Rightarrow> (string \<times> string) list" where
  "re_Y s = (case s of a # b # c # d # r \<Rightarrow>
               if list_all (in_range CHR ''0'' CHR ''9'') [a, b, c, d] then [([a, b, c, d], r)] else []
             | _ \<Rightarrow> [])"

definition re_dot :: "string \<Rightarrow> string list" where
  "re_dot s = (case s of a # r \<Rightarrow> if a = CHR ''.'' then [r] else [] | [] \<Rightarrow> [])"

definition format_regex_match :: "string \<Rightarrow> ((string \<times> string \<times> string) \<times> string) list" where
  "format_regex_match s =
     concat (map (\<lambda>(d, r1). concat (map (\<lambda>r2. concat (map (\<lambda>(m, r3). concat (map (\<lambda>r4.
       map (\<lambda>(y, r5). ((d, m, y), r5)) (re_Y r4)) (re_dot r3))) (re_m r2))) (re_dot r1))) (re_d s))"

text \<open>A date is (year, month, day); the order of \<open>datetime\<close> values with time 00:00 is the
  lexicographic order of these triples.\<close>

type_synonym date = "nat \<times> nat \<times> nat"

definition is_leap :: "nat \<Rightarrow> bool" where
  "is_leap y = (y mod 4 = 0 \<and> (y mod 100 \<noteq> 0 \<or> y mod 400 = 0))"

definition days_in_month :: "nat \<Rightarrow> nat \<Rightarrow> nat" where
  "days_in_month y m =
     (if m = 2 then (if is_leap y then 29 else 28)
      else if m = 4 \<or> m = 6 \<or> m = 9 \<or> m = 11 then 30 else 31)"

text \<open>\<open>None\<close> is the \<open>ValueError\<close> of the source.\<close>

definition strptime :: "string \<Rightarrow> date option" where
  "strptime data_string =
     (case format_regex_match data_string of
        [] \<Rightarrow> None
      | ((d, m, y), rest) # _ \<Rightarrow>
          if rest \<noteq> [] then None
          else let year = py_int y; month = py_int m; day = py_int d in
            if 1 \<le> year \<and> 1 \<le> month \<and> month \<le> 12 \<and> 1 \<le> day \<and> day \<le> days_in_month year month
            then Some (year, month, day) else None)"


section \<open>Source selection: \<open>encontrar_busca_mais_recente\<close>\<close>

text \<open>A file of the folder listing: a dictionary with the keys \<open>id\<close> and \<open>name\<close>; the
  source reads the name with \<open>f.get("name", "")\<close>, so the name may be missing.\<close>

record arquivo =
  file_id :: string
  file_name :: "string option"

definition get_name :: "arquivo \<Rightarrow> string" where
  "get_name f = (case file_name f of Some n \<Rightarrow> n | None \<Rightarrow> [])"

text \<open>One round of the loop over \<open>arquivos\<close>; the state is
  \<open>(mais_recente, data_mais_recente)\<close>.\<close>

fun busca_passo :: "string \<Rightarrow> arquivo option \<times> date option \<Rightarrow> arquivo \<Rightarrow> arquivo option \<times> date option" where
  "busca_passo prefixo (mais_recente, data_mais_recente) f =
     (let nome = get_name f in
      if \<not> startswith nome prefixo then (mais_recente, data_mais_recente)
      else
        let resto = strip (drop (length prefixo) nome);
            data_str = take 10 resto
        in case strptime data_str of
             None \<Rightarrow> (mais_recente, data_mais_recente)
           | Some dt \<Rightarrow>
               (case data_mais_recente of
                  None \<Rightarrow> (Some f, Some dt)
                | Some dmr \<Rightarrow> if dt > dmr then (Some f, Some dt) else (mais_recente, data_mais_recente)))"

definition encontrar_busca_mais_recente :: "arquivo list \<Rightarrow> string \<Rightarrow> arquivo option" where
  "encontrar_busca_mais_recente arquivos prefixo = fst (foldl (busca_passo prefixo) (None, None) arquivos)"

definition BUSCA_PREFIX :: string where
  "BUSCA_PREFIX = ''BUSCA ZPS141 - ''"

definition BANCO_NAME :: string where
  "BANCO_NAME = ''BANCO.xlsx''"


text \<open>The date the loop assigns to a file of the listing (lines 123 to 132), \<open>None\<close> when
  the round ends in \<open>continue\<close>.\<close>

definition data_candidato :: "string \<Rightarrow> arquivo \<Rightarrow> date option" where
  "data_candidato prefixo f =
     (if startswith (get_name f) prefixo
      then strptime (take 10 (strip (drop (length prefixo) (get_name f)))) else None)"

text \<open>Loop invariant: the state is empty and no file seen so far has a date, or it holds
  the first file, among those seen so far, that carries the greatest date.\<close>

definition sel_inv :: "string \<Rightarrow> arquivo list \<Rightarrow> arquivo option \<times> date option \<Rightarrow> bool" where
  "sel_inv p xs st =
     (case st of
        (None, None) \<Rightarrow> \<forall>f\<in>set xs. data_candidato p f = None
      | (Some f, Some d) \<Rightarrow>
          (\<exists>i<length xs. xs ! i = f \<and> data_candidato p f = Some d \<and>
             (\<forall>j<length xs. \<forall>d'. data_candidato p (xs ! j) = Some d' \<longrightarrow> d' \<le> d \<and> (j < i \<longrightarrow> d' < d)))
      | _ \<Rightarrow> False)"


section \<open>Tables\<close>

text \<open>
  A cell of a sheet read with \<open>pd.read_excel(..., header=None)\<close>: missing (\<open>NaN\<close>,
  \<open>pd.NA\<close>), a text, or a whole number. Cells of other kinds (fractional numbers, dates,
  booleans) are outside the model.
\<close>

datatype cell = NA | Text string | Num int

text \<open>
  A \<open>DataFrame\<close>: the column labels (whole numbers throughout this program) and the rows,
  each row holding one cell per column in the order of the labels. The row labels are left
  out: every \<open>pd.concat\<close> of the program renumbers them (\<open>ignore_index=True\<close>) and no
  other operation reads them.
\<close>

record df =
  columns :: "nat list"
  linhas :: "cell list list"

definition wf_df :: "df \<Rightarrow> bool" where
  "wf_df d = (distinct (columns d) \<and> (\<forall>r\<in>set (linhas d). length r = length (columns d)))"

text \<open>\<open>df.shape[1]\<close> and \<open>df.empty\<close>.\<close>

definition shape1 :: "df \<Rightarrow> nat" where
  "shape1 d = length (columns d)"

definition empty_df :: "df \<Rightarrow> bool" where
  "empty_df d = (linhas d = [] \<or> columns d = [])"

text \<open>\<open>pd.read_excel(..., header=None)\<close> labels the columns 0, 1, 2, ...\<close>

definition read_excel :: "df \<Rightarrow> df" where
  "read_excel g = g\<lparr>columns := [0..<length (columns g)]\<rparr>"

text \<open>\<open>str(n)\<close> for a whole number.\<close>

fun str_nat :: "nat \<Rightarrow> string" where
  "str_nat n = (if n < 10 then [''0123456789'' ! n]
                else str_nat (n div 10) @ [''0123456789'' ! (n mod 10)])"

definition str_int :: "int \<Rightarrow> string" where
  "str_int i = (if i < 0 then CHR ''-'' # str_nat (nat (- i)) else str_nat (nat i))"

text \<open>One cell under \<open>Series.astype(str)\<close>: a missing cell becomes the text \<open>nan\<close>.\<close>

definition astype_str :: "cell \<Rightarrow> string" where
  "astype_str c = (case c of NA \<Rightarrow> ''nan'' | Text s \<Rightarrow> s | Num n \<Rightarrow> str_int n)"

text \<open>\<open>pd.concat([a, b], ignore_index=True)\<close>: the columns of the result are the labels of
  \<open>a\<close> followed by the labels of \<open>b\<close> that \<open>a\<close> lacks; every row is laid out on these
  labels, a missing cell where its table has no such column.\<close>

definition union_cols :: "nat list \<Rightarrow> nat list \<Rightarrow> nat list" where
  "union_cols a b = a @ filter (\<lambda>c. c \<notin> set a) b"

definition reindex :: "nat list \<Rightarrow> nat list \<Rightarrow> cell list \<Rightarrow> cell list" where
  "reindex de para r = map (\<lambda>c. case map_of (zip de r) c of Some v \<Rightarrow> v | None \<Rightarrow> NA) para"

definition concat_df :: "df \<Rightarrow> df \<Rightarrow> df" where
  "concat_df a b =
     (let cs = union_cols (columns a) (columns b)
      in \<lparr>columns = cs,
          linhas = map (reindex (columns a) cs) (linhas a) @ map (reindex (columns b) cs) (linhas b)\<rparr>)"

text \<open>\<open>frame[mask]\<close> with a boolean mask that has one entry per row.\<close>

definition boolean_index :: "'a list \<Rightarrow> bool list \<Rightarrow> 'a list" where
  "boolean_index rs msk = map fst (filter snd (zip rs msk))"


section \<open>The stages of \<open>main\<close>\<close>

datatype erro =
    NenhumArquivo        \<comment> \<open>"Nenhum arquivo encontrado na pasta informada."\<close>
  | BancoNaoEncontrado   \<comment> \<open>"Arquivo 'BANCO.xlsx' nao encontrado na pasta."\<close>
  | BuscaNaoEncontrada   \<comment> \<open>"Nenhum arquivo do tipo 'BUSCA ZPS141 - DD.MM.AAAA' encontrado na pasta."\<close>
  | DownloadFalhou       \<comment> \<open>the Drive request for a file's content fails\<close>
  | BancoSemColunaN      \<comment> \<open>"BANCO nao possui coluna N (indice 13). ..."\<close>
  | SubsetVazio          \<comment> \<open>\<open>ValueError\<close> of \<open>drop_duplicates\<close> on an empty subset\<close>

definition HEADER_ROWS_BANCO :: nat where
  "HEADER_ROWS_BANCO = 1"

subsection \<open>Row filter (lines 238 to 255)\<close>

text \<open>The result is the new \<open>df_banco\<close> and \<open>removidas\<close>, the number the run prints.\<close>

definition filtrar_banco :: "df \<Rightarrow> erro + df \<times> nat" where
  "filtrar_banco df_banco =
     (if shape1 df_banco \<le> 13 then Inl BancoSemColunaN
      else
        let header_banco = df_banco\<lparr>linhas := take HEADER_ROWS_BANCO (linhas df_banco)\<rparr>;
            dados_banco = df_banco\<lparr>linhas := drop HEADER_ROWS_BANCO (linhas df_banco)\<rparr>;
            colN = map (\<lambda>r. astype_str (r ! 13)) (linhas dados_banco);
            mask_keep = map (\<lambda>s. startswith s ''Y'') colN;
            removidas = length (filter Not mask_keep);
            dados_banco_filtrado = dados_banco\<lparr>linhas := boolean_index (linhas dados_banco) mask_keep\<rparr>
        in Inr (concat_df header_banco dados_banco_filtrado, removidas))"

subsection \<open>Extraction of B6:AJ from the daily file (lines 259 to 262)\<close>

text \<open>\<open>df_hoje.iloc[5:, 1:36]\<close>\<close>

definition iloc_5_1_36 :: "df \<Rightarrow> df" where
  "iloc_5_1_36 d =
     \<lparr>columns = take 35 (drop 1 (columns d)),
      linhas = map (\<lambda>r. take 35 (drop 1 r)) (drop 5 (linhas d))\<rparr>"

text \<open>\<open>.replace("", pd.NA)\<close>\<close>

definition replace_vazio :: "cell \<Rightarrow> cell" where
  "replace_vazio c = (if c = Text [] then NA else c)"

definition isna :: "cell \<Rightarrow> bool" where
  "isna c = (c = NA)"

definition extrair_hoje :: "df \<Rightarrow> df" where
  "extrair_hoje df_hoje =
     (let dados_hoje = iloc_5_1_36 df_hoje;
          dados_hoje = dados_hoje\<lparr>linhas := map (map replace_vazio) (linhas dados_hoje)\<rparr>
      in dados_hoje\<lparr>linhas := filter (\<lambda>r. \<not> list_all isna r) (linhas dados_hoje)\<rparr>)"

subsection \<open>Append (lines 267 to 280)\<close>

text \<open>\<open>frame[k] = pd.NA\<close>: an existing column \<open>k\<close> is overwritten, a new one is added last.\<close>

definition setitem_na :: "df \<Rightarrow> nat \<Rightarrow> df" where
  "setitem_na d k =
     (if k \<in> set (columns d)
      then d\<lparr>linhas := map (\<lambda>r. map (\<lambda>(c, v). if c = k then NA else v) (zip (columns d) r)) (linhas d)\<rparr>
      else \<lparr>columns = columns d @ [k], linhas = map (\<lambda>r. r @ [NA]) (linhas d)\<rparr>)"

text \<open>The loop \<open>for i in range(extra): df_banco[df_banco.shape[1] + i] = pd.NA\<close>; the width
  is read again in every round.\<close>

definition alargar :: "df \<Rightarrow> nat \<Rightarrow> df" where
  "alargar df_banco extra = foldl (\<lambda>d i. setitem_na d (shape1 d + i)) df_banco [0..<extra]"

definition append_banco :: "df \<Rightarrow> df \<Rightarrow> df" where
  "append_banco df_banco dados_hoje =
     (if \<not> empty_df dados_hoje then
        let dados_hoje = dados_hoje\<lparr>columns := [0..<shape1 dados_hoje]\<rparr>;
            df_banco = (if shape1 df_banco < shape1 dados_hoje
                        then (let extra = shape1 dados_hoje - shape1 df_banco
                              in alargar df_banco extra)
                        else df_banco)
        in concat_df df_banco dados_hoje
      else df_banco)"

subsection \<open>Deduplication (lines 284 to 299)\<close>

text \<open>The cells of a row at the columns named in \<open>subset\<close>.\<close>

definition row_key :: "nat list \<Rightarrow> nat list \<Rightarrow> cell list \<Rightarrow> cell list" where
  "row_key cols subset_cols r = map snd (filter (\<lambda>(c, v). c \<in> set subset_cols) (zip cols r))"

text \<open>\<open>keep="first"\<close>: a row stays when no earlier row has the same key. Keys are compared
  as values; two missing cells count as equal.\<close>

fun keep_first :: "('a \<Rightarrow> 'k) \<Rightarrow> 'k list \<Rightarrow> 'a list \<Rightarrow> 'a list" where
  "keep_first key seen [] = []"
| "keep_first key seen (r # rs) =
     (if key r \<in> set seen then keep_first key seen rs
      else r # keep_first key (key r # seen) rs)"

text \<open>\<open>frame.drop_duplicates(subset=subset, keep="first")\<close> on a table with rows and
  columns. With an empty \<open>subset\<close> pandas has no column to factorise and raises
  \<open>ValueError\<close>; in a run the subset is never empty, because the row filter has let through
  only a table with more than 13 columns.\<close>

definition drop_duplicates :: "df \<Rightarrow> nat list \<Rightarrow> erro + df" where
  "drop_duplicates d subset_cols =
     (if subset_cols = [] then Inl SubsetVazio
      else Inr (d\<lparr>linhas := keep_first (row_key (columns d) subset_cols) [] (linhas d)\<rparr>))"

definition deduplicar :: "df \<Rightarrow> erro + df" where
  "deduplicar df_banco =
     (let header_banco = df_banco\<lparr>linhas := take HEADER_ROWS_BANCO (linhas df_banco)\<rparr>;
          dados_banco = df_banco\<lparr>linhas := drop HEADER_ROWS_BANCO (linhas df_banco)\<rparr>
      in if \<not> empty_df dados_banco then
           let colunas_todas = columns dados_banco;
               subset_cols = filter (\<lambda>c. c \<notin> set [0, 2, 3, 20]) colunas_todas
           in case drop_duplicates dados_banco subset_cols of
                Inl e \<Rightarrow> Inl e
              | Inr dados_banco_sem_dup \<Rightarrow> Inr (concat_df header_banco dados_banco_sem_dup)
         else Inr df_banco)"

subsection \<open>The run\<close>

text \<open>Lines 238 to 299: from the two tables read to the table that is saved.\<close>

definition compilar :: "df \<Rightarrow> df \<Rightarrow> erro + df" where
  "compilar df_banco df_hoje =
     (case filtrar_banco df_banco of
        Inl e \<Rightarrow> Inl e
      | Inr (df_banco, removidas) \<Rightarrow> deduplicar (append_banco df_banco (extrair_hoje df_hoje)))"

text \<open>The Drive folder and the ledger sheet: the listing of the folder, the first sheet of
  every workbook by file id, and the cell \<open>zps!K2\<close>.\<close>

record drive =
  pasta :: "arquivo list"
  planilhas :: "string \<rightharpoonup> df"
  zps_K2 :: "string option"

text \<open>\<open>main\<close>, with the time stamp text \<open>agora\<close> as a parameter. The result pairs the
  outcome with the Drive after the run.\<close>

definition main :: "string \<Rightarrow> drive \<Rightarrow> (erro + unit) \<times> drive" where
  "main agora drv =
     (let arquivos = pasta drv in
      if arquivos = [] then (Inl NenhumArquivo, drv)
      else case find (\<lambda>f. file_name f = Some BANCO_NAME) arquivos of
        None \<Rightarrow> (Inl BancoNaoEncontrado, drv)
      | Some arquivo_banco \<Rightarrow>
         (case encontrar_busca_mais_recente arquivos BUSCA_PREFIX of
            None \<Rightarrow> (Inl BuscaNaoEncontrada, drv)
          | Some arquivo_hoje \<Rightarrow>
             (case planilhas drv (file_id arquivo_hoje) of
                None \<Rightarrow> (Inl DownloadFalhou, drv)
              | Some xls_hoje \<Rightarrow>
                 (case planilhas drv (file_id arquivo_banco) of
                    None \<Rightarrow> (Inl DownloadFalhou, drv)
                  | Some xls_banco \<Rightarrow>
                     (case compilar (read_excel xls_banco) (read_excel xls_hoje) of
                        Inl e \<Rightarrow> (Inl e, drv)
                      | Inr df_banco \<Rightarrow>
                          (Inr (),
                           drv\<lparr>planilhas := (planilhas drv)(file_id arquivo_banco \<mapsto> df_banco),
                               zps_K2 := Some agora\<rparr>))))))"


section \<open>The coercion of the specification\<close>

text \<open>The textual coercion as the specification words it: an absent or null cell becomes
  the empty text.\<close>

definition spec_text :: "cell \<Rightarrow> string" where
  "spec_text c = (case c of NA \<Rightarrow> [] | Text s \<Rightarrow> s | Num n \<Rightarrow> str_int n)"


section \<open>Example inputs\<close>

text \<open>The listing of the selector example, and a name with a second blank after the dash.\<close>

definition ex_a :: arquivo where
  "ex_a = \<lparr>file_id = ''1'', file_name = Some ''BUSCA ZPS141 - 01.03.2024''\<rparr>"

definition ex_b :: arquivo where
  "ex_b = \<lparr>file_id = ''2'', file_name = Some ''BUSCA ZPS141 - 15.03.2024''\<rparr>"

definition ex_c :: arquivo where
  "ex_c = \<lparr>file_id = ''3'', file_name = Some ''other.xlsx''\<rparr>"

definition ex_sp :: arquivo where
  "ex_sp = \<lparr>file_id = ''4'', file_name = Some ''BUSCA ZPS141 -  15.03.2024''\<rparr>"


text \<open>A master table of 14 columns whose column N holds "Y1", "N2", "Y3" and a missing
  cell, and what the row filter leaves of it.\<close>

definition ex_header :: "cell list" where
  "ex_header = replicate 14 (Text ''titulo'')"

definition ex_banco :: df where
  "ex_banco = \<lparr>columns = [0..<14],
               linhas = [ex_header,
                         replicate 13 (Num 1) @ [Text ''Y1''],
                         replicate 13 (Num 2) @ [Text ''N2''],
                         replicate 13 (Num 3) @ [Text ''Y3''],
                         replicate 13 (Num 4) @ [NA]]\<rparr>"

definition ex_banco_filtrado :: df where
  "ex_banco_filtrado = \<lparr>columns = [0..<14],
               linhas = [ex_header,
                         replicate 13 (Num 1) @ [Text ''Y1''],
                         replicate 13 (Num 3) @ [Text ''Y3'']]\<rparr>"

text \<open>A small daily sheet: five heading rows, then a row with a number, a row that is blank
  from column B on, and a row with empty texts and one text.\<close>

definition ex_hoje_pequeno :: df where
  "ex_hoje_pequeno = \<lparr>columns = [0..<4],
      linhas = replicate 5 (replicate 4 (Text ''cabecalho''))
               @ [[Text ''x'', Num 1, NA, Text []],
                  [Text ''k'', NA, NA, Text []],
                  [NA, Text [], Text [], Text ''z'']]\<rparr>"

text \<open>A master table whose second data row differs from the first only in the columns 0, 2
  and 3, and the table without that row.\<close>

definition ex_dup :: df where
  "ex_dup = \<lparr>columns = [0..<14],
             linhas = [ex_header,
                       [Num 1, Num 7, Text ''a'', Text ''b''] @ replicate 10 (Text ''Y''),
                       [Num 2, Num 7, Text ''c'', NA] @ replicate 10 (Text ''Y''),
                       [Num 1, Num 8, Text ''a'', Text ''b''] @ replicate 10 (Text ''Y'')]\<rparr>"

definition ex_dup_result :: df where
  "ex_dup_result = \<lparr>columns = [0..<14],
             linhas = [ex_header,
                       [Num 1, Num 7, Text ''a'', Text ''b''] @ replicate 10 (Text ''Y''),
                       [Num 1, Num 8, Text ''a'', Text ''b''] @ replicate 10 (Text ''Y'')]\<rparr>"

text \<open>Two data rows that differ only in column 1, which holds the number 5 in one and the
  text "5" in the other.\<close>

definition ex_num_text :: df where
  "ex_num_text = \<lparr>columns = [0..<14],
             linhas = [ex_header,
                       [NA, Num 5] @ replicate 12 (Text ''Y''),
                       [NA, Text ''5''] @ replicate 12 (Text ''Y'')]\<rparr>"

text \<open>A master table of 14 columns (its heading row only), the 16 columns B..Q of one row
  of a daily sheet as \<open>iloc\<close> leaves them (labels 1 to 16), and a daily sheet of 36 columns
  with one row of data in row 6.\<close>

definition ex_master14 :: df where
  "ex_master14 = \<lparr>columns = [0..<14], linhas = [ex_header]\<rparr>"

definition ex_delta16 :: df where
  "ex_delta16 = \<lparr>columns = [1..<17], linhas = [map (\<lambda>i. Num (int i)) [1..<17]]\<rparr>"

definition ex_hoje36 :: df where
  "ex_hoje36 = \<lparr>columns = [0..<36],
                linhas = replicate 5 (replicate 36 NA) @ [replicate 36 (Num 7)]\<rparr>"

text \<open>A folder whose \<open>BANCO.xlsx\<close> has three columns.\<close>

definition ex_banco_estreito :: df where
  "ex_banco_estreito = \<lparr>columns = [0..<3], linhas = [[Text ''a'', Text ''b'', Text ''Y'']]\<rparr>"

definition ex_arquivo_banco :: arquivo where
  "ex_arquivo_banco = \<lparr>file_id = ''id-banco'', file_name = Some ''BANCO.xlsx''\<rparr>"

definition ex_drive :: drive where
  "ex_drive = \<lparr>pasta = [ex_arquivo_banco, ex_a, ex_b, ex_c],
               planilhas = [''id-banco'' \<mapsto> ex_banco_estreito, ''2'' \<mapsto> ex_hoje36],
               zps_K2 = None\<rparr>"


section \<open>Source selection: the loop keeps the first file with the greatest date\<close>

lemma busca_passo_candidato:
  "busca_passo p (mr, dmr) f =
     (case data_candidato p f of
        None \<Rightarrow> (mr, dmr)
      | Some dt \<Rightarrow> (case dmr of None \<Rightarrow> (Some f, Some dt)
                    | Some d \<Rightarrow> if dt > d then (Some f, Some dt) else (mr, dmr)))"
  by (simp add: data_candidato_def Let_def split: option.splits)

declare busca_passo.simps [simp del]

lemmas no_split = split_paired_All split_paired_Ex

lemma sel_inv_None: "sel_inv p xs (None, None) = (\<forall>f\<in>set xs. data_candidato p f = None)"
  by (simp add: sel_inv_def)

lemma sel_inv_Some:
  "sel_inv p xs (Some f, Some d) =
     (\<exists>i<length xs. xs ! i = f \<and> data_candidato p f = Some d \<and>
        (\<forall>j<length xs. \<forall>d'. data_candidato p (xs ! j) = Some d' \<longrightarrow> d' \<le> d \<and> (j < i \<longrightarrow> d' < d)))"
  by (simp add: sel_inv_def)

lemma sel_inv_cases:
  assumes "sel_inv p xs (mr, dmr)"
  shows "(mr = None \<and> dmr = None) \<or> (\<exists>f d. mr = Some f \<and> dmr = Some d)"
  using assms by (cases mr; cases dmr) (simp_all add: sel_inv_def del: no_split)

lemma sel_inv_skip:
  assumes inv: "sel_inv p xs st" and x: "data_candidato p x = None"
  shows "sel_inv p (xs @ [x]) st"
proof (cases st)
  case (Pair mr dmr)
  from sel_inv_cases [OF inv [unfolded Pair]] show ?thesis
  proof
    assume "mr = None \<and> dmr = None"
    then show ?thesis using inv x Pair by (simp add: sel_inv_None del: no_split)
  next
    assume "\<exists>f d. mr = Some f \<and> dmr = Some d"
    then obtain f d where fd: "mr = Some f" "dmr = Some d" by blast
    have "sel_inv p xs (Some f, Some d)" using inv Pair fd by simp
    then obtain i where i: "i < length xs" "xs ! i = f" "data_candidato p f = Some d"
      and mx: "\<forall>j<length xs. \<forall>d'. data_candidato p (xs ! j) = Some d' \<longrightarrow> d' \<le> d \<and> (j < i \<longrightarrow> d' < d)"
      unfolding sel_inv_Some by blast
    have "\<forall>j<length (xs @ [x]). \<forall>d'. data_candidato p ((xs @ [x]) ! j) = Some d' \<longrightarrow> d' \<le> d \<and> (j < i \<longrightarrow> d' < d)"
    proof (intro allI impI)
      fix j d' assume j: "j < length (xs @ [x])" and c: "data_candidato p ((xs @ [x]) ! j) = Some d'"
      show "d' \<le> d \<and> (j < i \<longrightarrow> d' < d)"
      proof (cases "j < length xs")
        case True
        then show ?thesis using mx c by (simp add: nth_append del: no_split)
      next
        case False
        then have "(xs @ [x]) ! j = x" using j by (simp add: nth_append del: no_split)
        then show ?thesis using c x by simp
      qed
    qed
    moreover have "i < length (xs @ [x])" "(xs @ [x]) ! i = f" using i by (simp_all add: nth_append)
    ultimately have "sel_inv p (xs @ [x]) (Some f, Some d)"
      unfolding sel_inv_Some using i(3) by (intro exI[of _ i] conjI)
    then show ?thesis using Pair fd by simp
  qed
qed

lemma sel_inv_take:
  assumes x: "data_candidato p x = Some dt"
    and mx: "\<forall>j<length xs. \<forall>d'. data_candidato p (xs ! j) = Some d' \<longrightarrow> d' < dt"
  shows "sel_inv p (xs @ [x]) (Some x, Some dt)"
proof -
  have "\<forall>j<length (xs @ [x]). \<forall>d'. data_candidato p ((xs @ [x]) ! j) = Some d' \<longrightarrow>
          d' \<le> dt \<and> (j < length xs \<longrightarrow> d' < dt)"
  proof (intro allI impI)
    fix j d' assume j: "j < length (xs @ [x])" and c: "data_candidato p ((xs @ [x]) ! j) = Some d'"
    show "d' \<le> dt \<and> (j < length xs \<longrightarrow> d' < dt)"
    proof (cases "j < length xs")
      case True
      then have "d' < dt" using mx c by (simp add: nth_append del: no_split)
      then show ?thesis by (simp add: less_imp_le)
    next
      case False
      then have "(xs @ [x]) ! j = x" using j by (simp add: nth_append del: no_split)
      then have "d' = dt" using c x by simp
      then show ?thesis using False by simp
    qed
  qed
  moreover have "length xs < length (xs @ [x])" "(xs @ [x]) ! length xs = x" by simp_all
  ultimately show ?thesis unfolding sel_inv_Some using x by (intro exI[of _ "length xs"] conjI)
qed

lemma sel_inv_step:
  assumes inv: "sel_inv p xs st"
  shows "sel_inv p (xs @ [x]) (busca_passo p st x)"
proof (cases st)
  case (Pair mr dmr)
  show ?thesis
  proof (cases "data_candidato p x")
    case None
    then have "busca_passo p st x = st" using Pair by (simp add: busca_passo_candidato)
    then show ?thesis using sel_inv_skip [OF inv None] by simp
  next
    case (Some dt)
    from sel_inv_cases [OF inv [unfolded Pair]] show ?thesis
    proof
      assume n: "mr = None \<and> dmr = None"
      then have "busca_passo p st x = (Some x, Some dt)" using Some Pair by (simp add: busca_passo_candidato)
      moreover have "\<forall>j<length xs. \<forall>d'. data_candidato p (xs ! j) = Some d' \<longrightarrow> d' < dt"
        using inv Pair n by (simp add: sel_inv_None del: no_split)
      ultimately show ?thesis using sel_inv_take [OF Some] by simp
    next
      assume "\<exists>f d. mr = Some f \<and> dmr = Some d"
      then obtain f d where fd: "mr = Some f" "dmr = Some d" by blast
      have "sel_inv p xs (Some f, Some d)" using inv Pair fd by simp
      then obtain i where i: "i < length xs" "xs ! i = f" "data_candidato p f = Some d"
        and mx: "\<forall>j<length xs. \<forall>d'. data_candidato p (xs ! j) = Some d' \<longrightarrow> d' \<le> d \<and> (j < i \<longrightarrow> d' < d)"
        unfolding sel_inv_Some by blast
      show ?thesis
      proof (cases "dt > d")
        case True
        then have "busca_passo p st x = (Some x, Some dt)" using Some Pair fd by (simp add: busca_passo_candidato)
        moreover have "\<forall>j<length xs. \<forall>d'. data_candidato p (xs ! j) = Some d' \<longrightarrow> d' < dt"
        proof (intro allI impI)
          fix j d' assume "j < length xs" "data_candidato p (xs ! j) = Some d'"
          then have "d' \<le> d" using mx by blast
          then show "d' < dt" using True by (rule le_less_trans)
        qed
        ultimately show ?thesis using sel_inv_take [OF Some] by simp
      next
        case False
        then have st: "busca_passo p st x = st" using Some Pair fd by (simp add: busca_passo_candidato)
        have le: "dt \<le> d" using False by (simp add: not_less)
        have "\<forall>j<length (xs @ [x]). \<forall>d'. data_candidato p ((xs @ [x]) ! j) = Some d' \<longrightarrow> d' \<le> d \<and> (j < i \<longrightarrow> d' < d)"
        proof (intro allI impI)
          fix j d' assume j: "j < length (xs @ [x])" and c: "data_candidato p ((xs @ [x]) ! j) = Some d'"
          show "d' \<le> d \<and> (j < i \<longrightarrow> d' < d)"
          proof (cases "j < length xs")
            case True
            then show ?thesis using mx c by (simp add: nth_append del: no_split)
          next
            case False
            then have "(xs @ [x]) ! j = x" using j by (simp add: nth_append del: no_split)
            then have "d' = dt" using c Some by simp
            then show ?thesis using le False i(1) by simp
          qed
        qed
        moreover have "i < length (xs @ [x])" "(xs @ [x]) ! i = f" using i by (simp_all add: nth_append)
        ultimately have "sel_inv p (xs @ [x]) (Some f, Some d)"
          unfolding sel_inv_Some using i(3) by (intro exI[of _ i] conjI)
        then show ?thesis using st Pair fd by simp
      qed
    qed
  qed
qed

lemma sel_inv_foldl: "sel_inv p xs (foldl (busca_passo p) (None, None) xs)"
proof (induction xs rule: rev_induct)
  case Nil
  show ?case by (simp add: sel_inv_def)
next
  case (snoc x xs)
  then show ?case by (simp add: sel_inv_step)
qed


lemma foldl_busca_cases:
  "(foldl (busca_passo p) (None, None) xs = (None, None)) \<or>
   (\<exists>f d. foldl (busca_passo p) (None, None) xs = (Some f, Some d))"
proof -
  obtain mr dmr where st: "foldl (busca_passo p) (None, None) xs = (mr, dmr)"
    by (cases "foldl (busca_passo p) (None, None) xs")
  have "sel_inv p xs (mr, dmr)" using sel_inv_foldl [of p xs] st by simp
  from sel_inv_cases [OF this] show ?thesis using st by (simp del: no_split)
qed

lemma busca_passo_invalido:
  "data_candidato p x = None \<Longrightarrow> busca_passo p st x = st"
  by (cases st) (simp add: busca_passo_candidato)

lemma foldl_busca_filter:
  "foldl (busca_passo p) st (filter (\<lambda>f. data_candidato p f \<noteq> None) xs) = foldl (busca_passo p) st xs"
proof (induction xs arbitrary: st)
  case Nil
  show ?case by simp
next
  case (Cons a xs)
  show ?case
  proof (cases "data_candidato p a")
    case None
    then show ?thesis using Cons busca_passo_invalido [OF None] by (simp del: no_split not_None_eq)
  next
    case (Some d)
    then show ?thesis using Cons by (simp del: no_split not_None_eq)
  qed
qed


lemma selector_example: "encontrar_busca_mais_recente [ex_a, ex_b, ex_c] BUSCA_PREFIX = Some ex_b"
  by code_simp

text \<open>
  Claim C5. The selector returns nothing exactly when no file of the listing carries a date.
  Otherwise it returns a file of the listing that carries a date, no file of the listing
  carries a later date, and every file that comes earlier in the listing carries a strictly
  earlier date: among the files with the greatest date the first one is returned. For the
  listing "BUSCA ZPS141 - 01.03.2024", "BUSCA ZPS141 - 15.03.2024", "other.xlsx" and the
  prefix "BUSCA ZPS141 - " the file of 15.03.2024 is returned.
\<close>

theorem selector_greatest_first_seen:
  "(encontrar_busca_mais_recente arquivos prefixo = None
      \<longleftrightarrow> (\<forall>f\<in>set arquivos. data_candidato prefixo f = None))
   \<and> (\<forall>f. encontrar_busca_mais_recente arquivos prefixo = Some f \<longrightarrow>
         (\<exists>i d. i < length arquivos \<and> arquivos ! i = f \<and> data_candidato prefixo f = Some d \<and>
            (\<forall>j<length arquivos. \<forall>d'. data_candidato prefixo (arquivos ! j) = Some d' \<longrightarrow>
               d' \<le> d \<and> (j < i \<longrightarrow> d' < d))))
   \<and> encontrar_busca_mais_recente [ex_a, ex_b, ex_c] BUSCA_PREFIX = Some ex_b"
proof (intro conjI allI impI)
  show "encontrar_busca_mais_recente [ex_a, ex_b, ex_c] BUSCA_PREFIX = Some ex_b"
    by (rule selector_example)
next
  from foldl_busca_cases [of prefixo arquivos]
  show "encontrar_busca_mais_recente arquivos prefixo = None
      \<longleftrightarrow> (\<forall>f\<in>set arquivos. data_candidato prefixo f = None)"
  proof
    assume st: "foldl (busca_passo prefixo) (None, None) arquivos = (None, None)"
    have "sel_inv prefixo arquivos (None, None)" using sel_inv_foldl [of prefixo arquivos] st by simp
    then show ?thesis using st by (simp add: encontrar_busca_mais_recente_def sel_inv_None)
  next
    assume "\<exists>f d. foldl (busca_passo prefixo) (None, None) arquivos = (Some f, Some d)"
    then obtain f d where st: "foldl (busca_passo prefixo) (None, None) arquivos = (Some f, Some d)"
      by blast
    have "sel_inv prefixo arquivos (Some f, Some d)" using sel_inv_foldl [of prefixo arquivos] st by simp
    then obtain i where "i < length arquivos" "arquivos ! i = f" "data_candidato prefixo f = Some d"
      unfolding sel_inv_Some by blast
    then have "\<exists>g\<in>set arquivos. data_candidato prefixo g \<noteq> None"
      by (metis nth_mem option.distinct(1))
    then show ?thesis using st by (simp add: encontrar_busca_mais_recente_def)
  qed
next
  fix f assume r: "encontrar_busca_mais_recente arquivos prefixo = Some f"
  from foldl_busca_cases [of prefixo arquivos]
  show "\<exists>i d. i < length arquivos \<and> arquivos ! i = f \<and> data_candidato prefixo f = Some d \<and>
            (\<forall>j<length arquivos. \<forall>d'. data_candidato prefixo (arquivos ! j) = Some d' \<longrightarrow>
               d' \<le> d \<and> (j < i \<longrightarrow> d' < d))"
  proof
    assume "foldl (busca_passo prefixo) (None, None) arquivos = (None, None)"
    then show ?thesis using r by (simp add: encontrar_busca_mais_recente_def)
  next
    assume "\<exists>f d. foldl (busca_passo prefixo) (None, None) arquivos = (Some f, Some d)"
    then obtain g d where st: "foldl (busca_passo prefixo) (None, None) arquivos = (Some g, Some d)"
      by blast
    then have "g = f" using r by (simp add: encontrar_busca_mais_recente_def)
    then have "sel_inv prefixo arquivos (Some f, Some d)" using sel_inv_foldl [of prefixo arquivos] st by simp
    then show ?thesis unfolding sel_inv_Some by blast
  qed
qed

theorem selector_greatest_first_seen_witness:
  "\<exists>i d. i < length [ex_a, ex_b, ex_c] \<and> [ex_a, ex_b, ex_c] ! i = ex_b
      \<and> data_candidato BUSCA_PREFIX ex_b = Some d
      \<and> (\<forall>j<length [ex_a, ex_b, ex_c]. \<forall>d'. data_candidato BUSCA_PREFIX ([ex_a, ex_b, ex_c] ! j) = Some d'
            \<longrightarrow> d' \<le> d \<and> (j < i \<longrightarrow> d' < d))"
  using selector_greatest_first_seen [of "[ex_a, ex_b, ex_c]" BUSCA_PREFIX]
  by (simp del: no_split)

text \<open>
  Claim C4, as the code has it. A file alone in the listing is returned exactly when its name
  starts with the prefix and the first 10 characters of the rest of the name, after white
  space has been removed at both ends of that rest, are accepted by \<open>strptime\<close> with the
  format \<open>%d.%m.%Y\<close>. Files that fail this test are skipped without an error: removing
  them from any listing does not change the result.
\<close>

theorem selector_valid_candidate:
  "encontrar_busca_mais_recente [f] prefixo =
     (if startswith (get_name f) prefixo
         \<and> strptime (take 10 (strip (drop (length prefixo) (get_name f)))) \<noteq> None
      then Some f else None)
   \<and> encontrar_busca_mais_recente arquivos prefixo =
       encontrar_busca_mais_recente
         (filter (\<lambda>f. startswith (get_name f) prefixo
                      \<and> strptime (take 10 (strip (drop (length prefixo) (get_name f)))) \<noteq> None) arquivos)
         prefixo"
proof
  show "encontrar_busca_mais_recente [f] prefixo =
     (if startswith (get_name f) prefixo
         \<and> strptime (take 10 (strip (drop (length prefixo) (get_name f)))) \<noteq> None
      then Some f else None)"
    by (auto simp: encontrar_busca_mais_recente_def busca_passo_candidato data_candidato_def
             split: option.splits)
next
  have eq: "(\<lambda>f. startswith (get_name f) prefixo
                      \<and> strptime (take 10 (strip (drop (length prefixo) (get_name f)))) \<noteq> None)
          = (\<lambda>f. data_candidato prefixo f \<noteq> None)"
    by (rule ext) (simp add: data_candidato_def)
  show "encontrar_busca_mais_recente arquivos prefixo =
       encontrar_busca_mais_recente
         (filter (\<lambda>f. startswith (get_name f) prefixo
                      \<and> strptime (take 10 (strip (drop (length prefixo) (get_name f)))) \<noteq> None) arquivos)
         prefixo"
    unfolding eq encontrar_busca_mais_recente_def by (simp only: foldl_busca_filter)
qed

text \<open>
  Claim C4 as stated fails: for the name "BUSCA ZPS141 -  15.03.2024" the first 10
  characters after the prefix are " 15.03.202", which \<open>strptime\<close> rejects, and yet the
  file is selected.
\<close>

theorem selector_unstripped_counterexample:
  "encontrar_busca_mais_recente [ex_sp] BUSCA_PREFIX = Some ex_sp
   \<and> startswith (get_name ex_sp) BUSCA_PREFIX
   \<and> strptime (take 10 (drop (length BUSCA_PREFIX) (get_name ex_sp))) = None"
  by code_simp

section \<open>Row filter and extraction\<close>

lemma reindex_same:
  assumes "distinct cs" "length r = length cs"
  shows "reindex cs cs r = r"
proof (rule nth_equalityI)
  show "length (reindex cs cs r) = length r" using assms by (simp add: reindex_def)
next
  fix i assume "i < length (reindex cs cs r)"
  then have i: "i < length cs" by (simp add: reindex_def)
  have "map_of (zip cs r) (cs ! i) = Some (r ! i)"
    using assms i by (intro map_of_zip_nth) simp_all
  then show "reindex cs cs r ! i = r ! i" using i by (simp add: reindex_def)
qed

lemma union_cols_same: "union_cols cs cs = cs"
  by (simp add: union_cols_def)

lemma concat_df_same_cols:
  assumes "columns a = cs" "columns b = cs" "distinct cs"
    and "\<forall>r\<in>set (linhas a). length r = length cs"
    and "\<forall>r\<in>set (linhas b). length r = length cs"
  shows "concat_df a b = \<lparr>columns = cs, linhas = linhas a @ linhas b\<rparr>"
proof -
  have "map (reindex cs cs) (linhas a) = linhas a"
    using assms by (intro map_idI reindex_same) simp_all
  moreover have "map (reindex cs cs) (linhas b) = linhas b"
    using assms by (intro map_idI reindex_same) simp_all
  ultimately show ?thesis using assms(1,2) by (simp add: concat_df_def union_cols_same)
qed

lemma boolean_index_map: "boolean_index rs (map f rs) = filter f rs"
  by (induction rs) (simp_all add: boolean_index_def)

lemma count_not_map: "length (filter Not (map f rs)) = length (filter (\<lambda>r. \<not> f r) rs)"
  by (induction rs) simp_all

lemma startswith_Y_text: "startswith (astype_str c) ''Y'' = startswith (spec_text c) ''Y''"
  by (cases c) (simp_all add: astype_str_def spec_text_def startswith_def)

lemma startswith_Y_NA: "\<not> startswith (astype_str NA) ''Y''"
  by (simp add: astype_str_def startswith_def)

lemma wf_ex_banco: "wf_df ex_banco"
  by code_simp

lemma wf_ex_dup: "wf_df ex_dup"
  by code_simp

lemma filtrar_banco_result:
  assumes wf: "wf_df d" and w: "13 < shape1 d"
  shows "filtrar_banco d =
      Inr (\<lparr>columns = columns d,
            linhas = take 1 (linhas d) @ filter (\<lambda>r. startswith (astype_str (r ! 13)) ''Y'') (drop 1 (linhas d))\<rparr>,
           length (filter (\<lambda>r. \<not> startswith (astype_str (r ! 13)) ''Y'') (drop 1 (linhas d))))"
proof -
  let ?keep = "\<lambda>r. startswith (astype_str (r ! 13)) ''Y''"
  let ?h = "d\<lparr>linhas := take 1 (linhas d)\<rparr>"
  let ?f = "d\<lparr>linhas := filter ?keep (drop 1 (linhas d))\<rparr>"
  have len: "\<forall>r\<in>set (linhas d). length r = length (columns d)" and dist: "distinct (columns d)"
    using wf by (simp_all add: wf_df_def)
  have "concat_df ?h ?f = \<lparr>columns = columns d, linhas = linhas ?h @ linhas ?f\<rparr>"
  proof (rule concat_df_same_cols)
    show "\<forall>r\<in>set (linhas ?h). length r = length (columns d)"
      using len by (auto dest: in_set_takeD)
    show "\<forall>r\<in>set (linhas ?f). length r = length (columns d)"
      using len by (auto dest: in_set_dropD)
  qed (simp_all add: dist)
  moreover have "map (\<lambda>s. startswith s ''Y'') (map (\<lambda>r. astype_str (r ! 13)) (drop 1 (linhas d)))
      = map ?keep (drop 1 (linhas d))" by simp
  ultimately show ?thesis using w
    by (simp add: filtrar_banco_def HEADER_ROWS_BANCO_def Let_def boolean_index_map count_not_map comp_def
             del: One_nat_def)
qed

text \<open>
  Claim C2. For a table with more than 13 columns the row filter returns the heading row
  unchanged, followed by exactly the data rows whose cell in column 13 starts with "Y" when
  read as text with a missing cell read as the empty text, in their original order, on the
  same columns; the number it reports is the number of data rows that fail the test.
\<close>

theorem filter_keeps_prefix_rows:
  assumes "wf_df d" and "13 < shape1 d"
  shows "filtrar_banco d =
      Inr (\<lparr>columns = columns d,
            linhas = take 1 (linhas d) @ filter (\<lambda>r. startswith (spec_text (r ! 13)) ''Y'') (drop 1 (linhas d))\<rparr>,
           length (filter (\<lambda>r. \<not> startswith (spec_text (r ! 13)) ''Y'') (drop 1 (linhas d))))"
  using filtrar_banco_result [OF assms] by (simp only: startswith_Y_text)

theorem filter_keeps_prefix_rows_witness:
  "wf_df ex_banco \<and> 13 < shape1 ex_banco \<and> filtrar_banco ex_banco = Inr (ex_banco_filtrado, 2)"
proof -
  have w: "13 < shape1 ex_banco" by code_simp
  have e: "(\<lparr>columns = columns ex_banco,
            linhas = take 1 (linhas ex_banco)
               @ filter (\<lambda>r. startswith (spec_text (r ! 13)) ''Y'') (drop 1 (linhas ex_banco))\<rparr>,
           length (filter (\<lambda>r. \<not> startswith (spec_text (r ! 13)) ''Y'') (drop 1 (linhas ex_banco))))
         = (ex_banco_filtrado, 2)" by code_simp
  show ?thesis using filter_keeps_prefix_rows [OF wf_ex_banco w] wf_ex_banco w e by simp
qed

text \<open>
  Claim C9. No data row that the row filter keeps has a missing cell in column 13: the
  missing cell becomes the text \<open>nan\<close>, which does not start with "Y".
\<close>

theorem filter_drops_null_cells:
  assumes "wf_df d" and "filtrar_banco d = Inr (d', removidas)"
  shows "\<forall>r\<in>set (drop 1 (linhas d')). r ! 13 \<noteq> NA"
proof -
  have w: "13 < shape1 d" using assms(2) by (auto simp: filtrar_banco_def split: if_splits)
  let ?keep = "\<lambda>r. startswith (astype_str (r ! 13)) ''Y''"
  have l: "linhas d' = take 1 (linhas d) @ filter ?keep (drop 1 (linhas d))"
    using filtrar_banco_result [OF assms(1) w] assms(2) by auto
  have "drop 1 (linhas d') = filter ?keep (drop 1 (linhas d))"
  proof (cases "linhas d")
    case Nil
    then show ?thesis using l by simp
  next
    case (Cons h t)
    then show ?thesis using l by simp
  qed
  then show ?thesis using startswith_Y_NA by auto
qed

theorem filter_drops_null_cells_witness:
  "wf_df ex_banco \<and> filtrar_banco ex_banco = Inr (ex_banco_filtrado, 2)
   \<and> (replicate 13 (Num 4) @ [NA]) \<in> set (drop 1 (linhas ex_banco))
   \<and> (replicate 13 (Num 4) @ [NA]) \<notin> set (drop 1 (linhas ex_banco_filtrado))"
proof -
  have f: "filtrar_banco ex_banco = Inr (ex_banco_filtrado, 2)" by code_simp
  have n: "(replicate 13 (Num 4) @ [NA]) ! 13 = NA" by code_simp
  have i: "(replicate 13 (Num 4) @ [NA]) \<in> set (drop 1 (linhas ex_banco))" by code_simp
  from filter_drops_null_cells [OF wf_ex_banco f] n
  have "(replicate 13 (Num 4) @ [NA]) \<notin> set (drop 1 (linhas ex_banco_filtrado))" by blast
  then show ?thesis using wf_ex_banco f i by simp
qed

lemma not_all_isna_replace:
  "(\<not> list_all isna (map replace_vazio r)) = (\<exists>c\<in>set r. c \<noteq> NA \<and> c \<noteq> Text [])"
  by (auto simp: list_all_iff isna_def replace_vazio_def)

text \<open>
  Claim C6. The extraction keeps the columns 1 to 35 in their order and, of the rows from
  row 5 on, exactly those that hold in these columns a cell that is neither missing nor the
  empty text, in their order and whole, an empty text stored as a missing cell. Every row
  of the result holds a cell that is neither missing nor the empty text.
\<close>

theorem extract_drops_blank_rows:
  "columns (extrair_hoje d) = take 35 (drop 1 (columns d))
   \<and> linhas (extrair_hoje d) =
       map (map replace_vazio)
         (filter (\<lambda>r. \<exists>c\<in>set r. c \<noteq> NA \<and> c \<noteq> Text [])
            (map (\<lambda>r. take 35 (drop 1 r)) (drop 5 (linhas d))))
   \<and> (\<forall>r\<in>set (linhas (extrair_hoje d)). \<exists>c\<in>set r. c \<noteq> NA \<and> c \<noteq> Text [])"
proof (intro conjI)
  show "columns (extrair_hoje d) = take 35 (drop 1 (columns d))"
    by (simp add: extrair_hoje_def iloc_5_1_36_def Let_def)
  show l: "linhas (extrair_hoje d) =
       map (map replace_vazio)
         (filter (\<lambda>r. \<exists>c\<in>set r. c \<noteq> NA \<and> c \<noteq> Text [])
            (map (\<lambda>r. take 35 (drop 1 r)) (drop 5 (linhas d))))"
    by (simp add: extrair_hoje_def iloc_5_1_36_def Let_def filter_map comp_def not_all_isna_replace)
  show "\<forall>r\<in>set (linhas (extrair_hoje d)). \<exists>c\<in>set r. c \<noteq> NA \<and> c \<noteq> Text []"
  proof
    fix r assume "r \<in> set (linhas (extrair_hoje d))"
    then have "\<not> list_all isna r"
      by (simp add: extrair_hoje_def Let_def)
    moreover have "\<forall>c\<in>set r. c \<noteq> Text []"
      using \<open>r \<in> set (linhas (extrair_hoje d))\<close>
      by (auto simp: extrair_hoje_def Let_def replace_vazio_def)
    ultimately show "\<exists>c\<in>set r. c \<noteq> NA \<and> c \<noteq> Text []"
      by (auto simp: list_all_iff isna_def)
  qed
qed

theorem extract_drops_blank_rows_witness:
  "linhas (extrair_hoje ex_hoje_pequeno) = [[Num 1, NA, NA], [NA, NA, Text ''z'']]"
proof -
  have e: "map (map replace_vazio)
         (filter (\<lambda>r. \<exists>c\<in>set r. c \<noteq> NA \<and> c \<noteq> Text [])
            (map (\<lambda>r. take 35 (drop 1 r)) (drop 5 (linhas ex_hoje_pequeno))))
       = [[Num 1, NA, NA], [NA, NA, Text ''z'']]" by code_simp
  from extract_drops_blank_rows [of ex_hoje_pequeno, THEN conjunct2, THEN conjunct1] e
  show ?thesis by (rule trans)
qed



section \<open>Deduplication\<close>

lemma keep_first_subset: "set (keep_first key seen xs) \<subseteq> set xs"
  by (induction xs arbitrary: seen) auto

lemma keep_first_idem:
  "keep_first key seen (keep_first key seen xs) = keep_first key seen xs"
  by (induction xs arbitrary: seen) simp_all

lemma keep_first_Nil_iff: "keep_first key [] xs = [] \<longleftrightarrow> xs = []"
  by (cases xs) simp_all

lemma keep_first_nths:
  "keep_first key seen xs =
     nths xs {j. key (xs ! j) \<notin> set seen \<and> (\<forall>i<j. key (xs ! i) \<noteq> key (xs ! j))}"
proof (induction xs arbitrary: seen)
  case Nil
  show ?case by simp
next
  case (Cons x xs)
  show ?case
  proof (cases "key x \<in> set seen")
    case True
    have "{j. Suc j \<in> {j. key ((x # xs) ! j) \<notin> set seen \<and> (\<forall>i<j. key ((x # xs) ! i) \<noteq> key ((x # xs) ! j))}}
        = {j. key (xs ! j) \<notin> set seen \<and> (\<forall>i<j. key (xs ! i) \<noteq> key (xs ! j))}"
      using True by (auto simp: All_less_Suc2)
    then show ?thesis using True Cons.IH [of seen] by (simp add: nths_Cons)
  next
    case False
    have "{j. Suc j \<in> {j. key ((x # xs) ! j) \<notin> set seen \<and> (\<forall>i<j. key ((x # xs) ! i) \<noteq> key ((x # xs) ! j))}}
        = {j. key (xs ! j) \<notin> set (key x # seen) \<and> (\<forall>i<j. key (xs ! i) \<noteq> key (xs ! j))}"
      by (auto simp: All_less_Suc2)
    then show ?thesis using False Cons.IH [of "key x # seen"] by (simp add: nths_Cons)
  qed
qed

lemma nths_in_range: "nths xs A = nths xs {j. j < length xs \<and> j \<in> A}"
proof -
  have "filter (\<lambda>p. snd p \<in> A) (zip xs [0..<length xs])
      = filter (\<lambda>p. snd p \<in> {j. j < length xs \<and> j \<in> A}) (zip xs [0..<length xs])"
    by (rule filter_cong) (auto dest: set_zip_rightD)
  then show ?thesis by (simp add: nths_def)
qed

lemma nths_cong_in_range:
  assumes "\<And>j. j < length xs \<Longrightarrow> (j \<in> A) = (j \<in> B)"
  shows "nths xs A = nths xs B"
proof -
  have "{j. j < length xs \<and> j \<in> A} = {j. j < length xs \<and> j \<in> B}" using assms by auto
  then show ?thesis using nths_in_range [of xs A] nths_in_range [of xs B] by simp
qed

lemma row_key_Nil: "row_key [] sub r = []"
  by (simp add: row_key_def)

lemma row_key_Cons:
  "row_key (c # cols) sub (a # t) = (if c \<in> set sub then a # row_key cols sub t else row_key cols sub t)"
  by (simp add: row_key_def)

lemma row_key_eq_iff:
  assumes "length r1 = length cols" "length r2 = length cols"
  shows "(row_key cols sub r1 = row_key cols sub r2)
     \<longleftrightarrow> (\<forall>k<length cols. cols ! k \<in> set sub \<longrightarrow> r1 ! k = r2 ! k)"
  using assms
proof (induction cols arbitrary: r1 r2)
  case Nil
  then show ?case by (simp add: row_key_Nil)
next
  case (Cons c cols)
  then obtain a1 t1 a2 t2 where r: "r1 = a1 # t1" "r2 = a2 # t2"
    by (metis length_Suc_conv)
  have IH: "(row_key cols sub t1 = row_key cols sub t2)
     \<longleftrightarrow> (\<forall>k<length cols. cols ! k \<in> set sub \<longrightarrow> t1 ! k = t2 ! k)"
    using Cons r by simp
  show ?case unfolding r by (simp add: row_key_Cons All_less_Suc2 IH)
qed

lemma deduplicar_empty:
  assumes "drop 1 (linhas d) = [] \<or> columns d = []"
  shows "deduplicar d = Inr d"
  using assms by (auto simp: deduplicar_def HEADER_ROWS_BANCO_def empty_df_def Let_def)

lemma deduplicar_nonempty:
  assumes wf: "wf_df d" and ne: "drop 1 (linhas d) \<noteq> []" "columns d \<noteq> []"
  shows "deduplicar d =
     (if filter (\<lambda>c. c \<notin> set [0, 2, 3, 20]) (columns d) = [] then Inl SubsetVazio
      else Inr \<lparr>columns = columns d,
                linhas = take 1 (linhas d) @
                  keep_first (row_key (columns d) (filter (\<lambda>c. c \<notin> set [0, 2, 3, 20]) (columns d))) []
                    (drop 1 (linhas d))\<rparr>)"
proof -
  let ?sub = "filter (\<lambda>c. c \<notin> set [0, 2, 3, 20]) (columns d)"
  let ?kf = "keep_first (row_key (columns d) ?sub) [] (drop 1 (linhas d))"
  let ?h = "d\<lparr>linhas := take 1 (linhas d)\<rparr>"
  let ?f = "d\<lparr>linhas := ?kf\<rparr>"
  have len: "\<forall>r\<in>set (linhas d). length r = length (columns d)" and dist: "distinct (columns d)"
    using wf by (simp_all add: wf_df_def)
  have c: "concat_df ?h ?f = \<lparr>columns = columns d, linhas = linhas ?h @ linhas ?f\<rparr>"
  proof (rule concat_df_same_cols)
    show "\<forall>r\<in>set (linhas ?h). length r = length (columns d)"
      using len by (auto dest: in_set_takeD)
    have "set ?kf \<subseteq> set (linhas d)"
      using keep_first_subset [of _ "[]" "drop 1 (linhas d)"] set_drop_subset [of 1 "linhas d"]
      by blast
    then show "\<forall>r\<in>set (linhas ?f). length r = length (columns d)"
      using len by auto
  qed (simp_all add: dist)
  show ?thesis using ne c
    by (simp add: deduplicar_def HEADER_ROWS_BANCO_def empty_df_def Let_def drop_duplicates_def
             del: One_nat_def set_simps filter.simps)
qed

text \<open>
  Claim C1, as the code has it. For a table with a column other than 0, 2, 3 and 20, the
  deduplication keeps the heading row and, of the data rows, exactly those for which no
  earlier data row holds equal cells in every column other than 0, 2, 3 and 20. The cells
  are compared as values: two missing cells are equal, a number and a text never are.
\<close>

theorem dedup_value_equality:
  assumes wf: "wf_df d" and idc: "\<exists>c\<in>set (columns d). c \<notin> {0, 2, 3, 20}"
  shows "deduplicar d =
     Inr \<lparr>columns = columns d,
          linhas = take 1 (linhas d) @
            nths (drop 1 (linhas d))
              {j. j < length (drop 1 (linhas d)) \<and>
                  (\<forall>i<j. \<not> (\<forall>k<length (columns d). columns d ! k \<notin> {0, 2, 3, 20} \<longrightarrow>
                              drop 1 (linhas d) ! i ! k = drop 1 (linhas d) ! j ! k))}\<rparr>"
proof -
  let ?D = "drop 1 (linhas d)"
  let ?sub = "filter (\<lambda>c. c \<notin> set [0, 2, 3, 20]) (columns d)"
  let ?key = "row_key (columns d) ?sub"
  let ?A = "{j. j < length ?D \<and>
                  (\<forall>i<j. \<not> (\<forall>k<length (columns d). columns d ! k \<notin> {0, 2, 3, 20} \<longrightarrow>
                              ?D ! i ! k = ?D ! j ! k))}"
  have sub: "?sub \<noteq> []" using idc by (auto simp: filter_empty_conv)
  have cols: "columns d \<noteq> []" using idc by auto
  have len: "\<And>r. r \<in> set ?D \<Longrightarrow> length r = length (columns d)"
    using wf by (auto simp: wf_df_def dest: in_set_dropD)
  have insub: "\<And>k. k < length (columns d) \<Longrightarrow> (columns d ! k \<in> set ?sub) = (columns d ! k \<notin> {0, 2, 3, 20})"
    by auto
  have n: "keep_first ?key [] ?D = nths ?D ?A"
  proof -
    have "keep_first ?key [] ?D = nths ?D {j. ?key (?D ! j) \<notin> set [] \<and> (\<forall>i<j. ?key (?D ! i) \<noteq> ?key (?D ! j))}"
      by (rule keep_first_nths)
    also have "\<dots> = nths ?D ?A"
    proof (rule nths_cong_in_range)
      fix j assume j: "j < length ?D"
      have "\<And>i. i < j \<Longrightarrow> (?key (?D ! i) = ?key (?D ! j))
              = (\<forall>k<length (columns d). columns d ! k \<notin> {0, 2, 3, 20} \<longrightarrow> ?D ! i ! k = ?D ! j ! k)"
      proof -
        fix i assume "i < j"
        then have "i < length ?D" using j by simp
        then have "length (?D ! i) = length (columns d)" "length (?D ! j) = length (columns d)"
          using j len nth_mem by blast+
        from row_key_eq_iff [OF this, of ?sub] insub
        show "(?key (?D ! i) = ?key (?D ! j))
              = (\<forall>k<length (columns d). columns d ! k \<notin> {0, 2, 3, 20} \<longrightarrow> ?D ! i ! k = ?D ! j ! k)"
          by simp
      qed
      then show "(j \<in> {j. ?key (?D ! j) \<notin> set [] \<and> (\<forall>i<j. ?key (?D ! i) \<noteq> ?key (?D ! j))}) = (j \<in> ?A)"
        using j by simp
    qed
    finally show ?thesis .
  qed
  show ?thesis
  proof (cases "?D = []")
    case True
    then have "take 1 (linhas d) = linhas d"
      by (cases "linhas d") simp_all
    then show ?thesis using True deduplicar_empty [of d] by simp
  next
    case False
    from deduplicar_nonempty [OF wf False cols] sub n show ?thesis by (simp only: if_False)
  qed
qed

theorem dedup_value_equality_witness:
  "wf_df ex_dup \<and> (\<exists>c\<in>set (columns ex_dup). c \<notin> {0, 2, 3, 20})
   \<and> deduplicar ex_dup = Inr ex_dup_result
   \<and> ex_dup_result = \<lparr>columns = columns ex_dup,
          linhas = take 1 (linhas ex_dup) @
            nths (drop 1 (linhas ex_dup))
              {j. j < length (drop 1 (linhas ex_dup)) \<and>
                  (\<forall>i<j. \<not> (\<forall>k<length (columns ex_dup). columns ex_dup ! k \<notin> {0, 2, 3, 20} \<longrightarrow>
                              drop 1 (linhas ex_dup) ! i ! k = drop 1 (linhas ex_dup) ! j ! k))}\<rparr>"
proof -
  have c: "\<exists>c\<in>set (columns ex_dup). c \<notin> {0, 2, 3, 20}" by code_simp
  have r: "deduplicar ex_dup = Inr ex_dup_result" by code_simp
  show ?thesis using dedup_value_equality [OF wf_ex_dup c] wf_ex_dup c r by simp
qed

text \<open>
  Claim C1 as stated fails: the two data rows of \<open>ex_num_text\<close> have the same identity key
  under the textual coercion (the number 5 and the text "5" both read "5"), and the
  deduplication keeps both.
\<close>

theorem dedup_textual_counterexample:
  "map spec_text (row_key (columns ex_num_text) (filter (\<lambda>c. c \<notin> set [0, 2, 3, 20]) (columns ex_num_text))
                    (linhas ex_num_text ! 1))
   = map spec_text (row_key (columns ex_num_text) (filter (\<lambda>c. c \<notin> set [0, 2, 3, 20]) (columns ex_num_text))
                    (linhas ex_num_text ! 2))
   \<and> deduplicar ex_num_text = Inr ex_num_text"
  by code_simp

text \<open>
  Claim C7. Whenever the deduplication returns a table, deduplicating that table again
  returns it unchanged; and it does return a table whenever the input has a column other
  than 0, 2, 3 and 20.
\<close>

theorem dedup_idempotent:
  assumes wf: "wf_df d"
  shows "(\<forall>d'. deduplicar d = Inr d' \<longrightarrow> deduplicar d' = Inr d')
       \<and> ((\<exists>c\<in>set (columns d). c \<notin> {0, 2, 3, 20}) \<longrightarrow> (\<exists>d'. deduplicar d = Inr d'))"
proof (intro conjI allI impI)
  assume "\<exists>c\<in>set (columns d). c \<notin> {0, 2, 3, 20}"
  then have sub: "filter (\<lambda>c. c \<notin> set [0, 2, 3, 20]) (columns d) \<noteq> []" and cols: "columns d \<noteq> []"
    by (auto simp: filter_empty_conv)
  show "\<exists>d'. deduplicar d = Inr d'"
  proof (cases "drop 1 (linhas d) = []")
    case True
    then show ?thesis using deduplicar_empty [of d] by simp
  next
    case False
    from deduplicar_nonempty [OF wf False cols] sub show ?thesis by (simp only: if_False) blast
  qed
next
  fix d' assume r: "deduplicar d = Inr d'"
  let ?D = "drop 1 (linhas d)"
  let ?sub = "filter (\<lambda>c. c \<notin> set [0, 2, 3, 20]) (columns d)"
  let ?key = "row_key (columns d) ?sub"
  show "deduplicar d' = Inr d'"
  proof (cases "?D = [] \<or> columns d = []")
    case True
    then have "d' = d" using deduplicar_empty [OF True] r by simp
    then show ?thesis using r by simp
  next
    case False
    then have ne: "?D \<noteq> []" "columns d \<noteq> []" by simp_all
    from ne(1) obtain h t where L: "linhas d = h # t" "t \<noteq> []"
      by (cases "linhas d") auto
    have sub: "?sub \<noteq> []"
      using deduplicar_nonempty [OF wf ne] r by (auto split: if_splits)
    have d': "d' = \<lparr>columns = columns d, linhas = h # keep_first ?key [] t\<rparr>"
      using deduplicar_nonempty [OF wf ne] r sub L by simp
    have kf_ne: "keep_first ?key [] t \<noteq> []" using L(2) by (simp add: keep_first_Nil_iff)
    have wf': "wf_df d'"
    proof -
      have "set (keep_first ?key [] t) \<subseteq> set t" by (rule keep_first_subset)
      then show ?thesis using wf L unfolding d' wf_df_def by auto
    qed
    have "deduplicar d' = Inr \<lparr>columns = columns d, linhas = h # keep_first ?key [] (keep_first ?key [] t)\<rparr>"
      using deduplicar_nonempty [OF wf'] kf_ne ne(2) sub unfolding d' by simp
    then show ?thesis unfolding d' by (simp only: keep_first_idem)
  qed
qed

theorem dedup_idempotent_witness:
  "wf_df ex_dup \<and> deduplicar ex_dup = Inr ex_dup_result \<and> deduplicar ex_dup_result = Inr ex_dup_result"
proof -
  have r: "deduplicar ex_dup = Inr ex_dup_result" by code_simp
  from dedup_idempotent [OF wf_ex_dup] r have "deduplicar ex_dup_result = Inr ex_dup_result" by blast
  then show ?thesis using wf_ex_dup r by simp
qed



section \<open>Append: the widening loop\<close>

text \<open>The appended table has the rows of both tables. When the delta is no wider than the
  master, or wider by one column, the appended table is as wide as the wider of the two.\<close>

lemma setitem_na_len: "length (linhas (setitem_na d k)) = length (linhas d)"
  by (simp add: setitem_na_def)

lemma alargar_len: "length (linhas (alargar d extra)) = length (linhas d)"
  unfolding alargar_def
  by (induction extra) (simp_all add: setitem_na_len)

lemma concat_df_len: "length (linhas (concat_df a b)) = length (linhas a) + length (linhas b)"
  by (simp add: concat_df_def Let_def)

lemma append_banco_row_count:
  "\<not> empty_df dados_hoje \<Longrightarrow>
     length (linhas (append_banco df_banco dados_hoje)) = length (linhas df_banco) + length (linhas dados_hoje)"
  by (simp add: append_banco_def Let_def concat_df_len alargar_len)

lemma union_cols_upt: "d \<le> w \<Longrightarrow> union_cols [0..<w] [0..<d] = [0..<w]"
  by (simp add: union_cols_def filter_empty_conv)

lemma alargar_one: "columns d = [0..<w] \<Longrightarrow> columns (alargar d 1) = [0..<Suc w]"
  by (simp add: alargar_def setitem_na_def shape1_def)

lemma append_banco_width_aligned:
  assumes "columns df_banco = [0..<w]" and "\<not> empty_df dados_hoje" and "shape1 dados_hoje \<le> Suc w"
  shows "shape1 (append_banco df_banco dados_hoje) = max w (shape1 dados_hoje)"
proof (cases "shape1 dados_hoje \<le> w")
  case True
  then show ?thesis using assms(1,2)
    by (simp add: append_banco_def Let_def shape1_def concat_df_def union_cols_upt)
next
  case False
  then have d: "shape1 dados_hoje = Suc w" using assms(3) by simp
  have "columns (alargar df_banco 1) = [0..<Suc w]" using assms(1) by (rule alargar_one)
  then show ?thesis using assms(1,2) d
    by (simp add: append_banco_def Let_def shape1_def concat_df_def union_cols_upt del: upt_Suc)
qed

text \<open>
  Claim C3. The loop that widens the master reads the width again in every round, so round
  \<open>i\<close> adds the label \<open>width + 2 i\<close>. For a master of 14 columns and a delta of 16 columns
  the master gets the labels 14 and 16, the delta brings the label 15, and the appended
  table has 17 columns, not max 14 16 = 16.
\<close>

theorem append_widening_column_count:
  "columns (append_banco ex_master14 ex_delta16) = [0..<14] @ [14, 16, 15]
   \<and> shape1 (append_banco ex_master14 ex_delta16) = 17
   \<and> max (shape1 ex_master14) (shape1 ex_delta16) = 16"
  by code_simp

text \<open>
  Claim C10. The extracted delta never has more than 35 columns. For a master of 14 columns
  and a daily sheet of 36 columns the filtered master has 14 columns and the table the run
  saves has 45 columns, more than max 14 35 = 35.
\<close>

theorem merged_width_exceeds_35:
  "shape1 (extrair_hoje d) \<le> 35
   \<and> map_sum id (shape1 \<circ> fst) (filtrar_banco ex_master14) = Inr 14
   \<and> map_sum id shape1 (compilar ex_master14 ex_hoje36) = Inr 45"
proof (intro conjI)
  show "shape1 (extrair_hoje d) \<le> 35"
    by (simp add: shape1_def extrair_hoje_def iloc_5_1_36_def Let_def)
  show "map_sum id (shape1 \<circ> fst) (filtrar_banco ex_master14) = Inr 14" by code_simp
  show "map_sum id shape1 (compilar ex_master14 ex_hoje36) = Inr 45" by code_simp
qed


section \<open>The run: a narrow master aborts before the save\<close>

text \<open>
  Claim C8. When both files are found and read and the master sheet has fewer than 14
  columns, the row filter fails with the error about column N, the run ends with that
  error, and the Drive is as it was: nothing is saved and no time stamp is written.
\<close>

theorem narrow_master_aborts:
  assumes "find (\<lambda>f. file_name f = Some BANCO_NAME) (pasta drv) = Some arquivo_banco"
    and "encontrar_busca_mais_recente (pasta drv) BUSCA_PREFIX = Some arquivo_hoje"
    and "planilhas drv (file_id arquivo_hoje) = Some xls_hoje"
    and "planilhas drv (file_id arquivo_banco) = Some xls_banco"
    and "shape1 (read_excel xls_banco) < 14"
  shows "filtrar_banco (read_excel xls_banco) = Inl BancoSemColunaN
       \<and> main agora drv = (Inl BancoSemColunaN, drv)"
proof -
  have f: "filtrar_banco (read_excel xls_banco) = Inl BancoSemColunaN"
    using assms(5) by (simp add: filtrar_banco_def)
  then have c: "compilar (read_excel xls_banco) (read_excel xls_hoje) = Inl BancoSemColunaN"
    by (simp add: compilar_def)
  have "pasta drv \<noteq> []" using assms(1) by auto
  then have "main agora drv = (Inl BancoSemColunaN, drv)"
    using assms(1-4) c by (simp add: main_def Let_def)
  then show ?thesis using f by simp
qed

theorem narrow_master_aborts_witness:
  "main ''04/11/2026 12:00:00'' ex_drive = (Inl BancoSemColunaN, ex_drive)"
proof -
  have 1: "find (\<lambda>f. file_name f = Some BANCO_NAME) (pasta ex_drive) = Some ex_arquivo_banco"
    by code_simp
  have 2: "encontrar_busca_mais_recente (pasta ex_drive) BUSCA_PREFIX = Some ex_b" by code_simp
  have 3: "planilhas ex_drive (file_id ex_b) = Some ex_hoje36"
    by (simp add: ex_drive_def ex_b_def)
  have 4: "planilhas ex_drive (file_id ex_arquivo_banco) = Some ex_banco_estreito"
    by (simp add: ex_drive_def ex_arquivo_banco_def)
  have 5: "shape1 (read_excel ex_banco_estreito) < 14" by code_simp
  from narrow_master_aborts [OF 1 2 3 4 5] show ?thesis by simp
qed

end
